theory Spec2Isabelle
  imports Complex_Main
begin

section \<open>Wireless sensor network: the power-coefficient matrix of \<open>wsn.py\<close>\<close>

text \<open>
  The module holds two classes: \<open>Node\<close> (a position and a data rate) and \<open>WSN\<close>
  (the node list, the physical parameters and the matrix \<open>power_mat\<close> of pairwise
  transmission coefficients). The methods mutate the object, and a Python exception
  leaves behind whatever was mutated before it was raised; so every method is a
  function from the state to an outcome that carries the state in both cases.

  Python floats are modelled as real numbers: finite and exact, without rounding,
  infinities or NaN.
\<close>

subsection \<open>Exceptions and outcomes\<close>

datatype py_error = IndexError | ValueError

datatype 's outcome = Returns 's | Raises py_error 's

fun state_of :: "'s outcome \<Rightarrow> 's" where
  "state_of (Returns s) = s"
| "state_of (Raises e s) = s"

fun returns :: "'s outcome \<Rightarrow> bool" where
  "returns (Returns s) = True"
| "returns (Raises e s) = False"

subsection \<open>The numpy operations the module calls\<close>

text \<open>
  A two-dimensional array is its list of rows together with its number of columns
  (an array of shape \<open>(0, k)\<close> has no rows and still \<open>k\<close> columns). Arrays built by
  numpy are rectangular: every row has \<open>ncols\<close> entries.
\<close>

record ndarray =
  ncols :: nat
  rows :: "real list list"

definition nrows :: "ndarray \<Rightarrow> nat" where
  "nrows m = length (rows m)"

definition rect :: "ndarray \<Rightarrow> bool" where
  "rect m = list_all (\<lambda>row. length row = ncols m) (rows m)"

text \<open>\<open>np.zeros((n, k))\<close>.\<close>

definition np_zeros :: "nat \<Rightarrow> nat \<Rightarrow> ndarray" where
  "np_zeros n k = \<lparr>ncols = k, rows = replicate n (replicate k 0)\<rparr>"

text \<open>
  \<open>m[i][j]\<close> for indices that are not negative: reading (\<open>None\<close> is IndexError) and
  the assignment \<open>m[i][j] = v\<close>.
\<close>

definition getitem :: "ndarray \<Rightarrow> nat \<Rightarrow> nat \<Rightarrow> real option" where
  "getitem m i j =
     (if i < nrows m \<and> j < ncols m then Some (rows m ! i ! j) else None)"

definition setitem :: "ndarray \<Rightarrow> nat \<Rightarrow> nat \<Rightarrow> real \<Rightarrow> py_error + ndarray" where
  "setitem m i j v =
     (if i < nrows m \<and> j < ncols m
      then Inr (m\<lparr>rows := (rows m)[i := (rows m ! i)[j := v]]\<rparr>)
      else Inl IndexError)"

text \<open>
  \<open>np.column_stack((m, v))\<close> for a two-dimensional \<open>m\<close> and a list \<open>v\<close>: the list
  becomes a column of shape \<open>(len(v), 1)\<close>, and the concatenation along axis 1 raises
  ValueError unless the numbers of rows agree.
\<close>

definition column_stack :: "ndarray \<Rightarrow> real list \<Rightarrow> py_error + ndarray" where
  "column_stack m v =
     (if nrows m = length v
      then Inr \<lparr>ncols = ncols m + 1, rows = map2 (\<lambda>row c. row @ [c]) (rows m) v\<rparr>
      else Inl ValueError)"

text \<open>
  \<open>np.row_stack((m, v))\<close>: the list becomes a row of shape \<open>(1, len(v))\<close>, and the
  concatenation along axis 0 raises ValueError unless the numbers of columns agree.
\<close>

definition row_stack :: "ndarray \<Rightarrow> real list \<Rightarrow> py_error + ndarray" where
  "row_stack m v =
     (if ncols m = length v
      then Inr \<lparr>ncols = ncols m, rows = rows m @ [v]\<rparr>
      else Inl ValueError)"

text \<open>
  An integer index into an axis of length \<open>n\<close>, as Python lists and \<open>np.delete\<close>
  read it: a negative index counts from the end, and an index outside
  \<open>-n \<le> idx < n\<close> is an IndexError.
\<close>

definition norm_index :: "nat \<Rightarrow> int \<Rightarrow> nat option" where
  "norm_index n idx =
     (if idx < - int n \<or> int n \<le> idx then None
      else if idx < 0 then Some (nat (idx + int n)) else Some (nat idx))"

definition drop_nth :: "nat \<Rightarrow> 'a list \<Rightarrow> 'a list" where
  "drop_nth k xs = take k xs @ drop (Suc k) xs"

text \<open>\<open>del xs[idx]\<close> on a list.\<close>

definition del_item :: "'a list \<Rightarrow> int \<Rightarrow> py_error + 'a list" where
  "del_item xs idx =
     (case norm_index (length xs) idx of
        None \<Rightarrow> Inl IndexError
      | Some k \<Rightarrow> Inr (drop_nth k xs))"

text \<open>\<open>np.delete(m, idx, axis=0)\<close> and \<open>np.delete(m, idx, axis=1)\<close>.\<close>

definition np_delete_row :: "ndarray \<Rightarrow> int \<Rightarrow> py_error + ndarray" where
  "np_delete_row m idx =
     (case norm_index (nrows m) idx of
        None \<Rightarrow> Inl IndexError
      | Some k \<Rightarrow> Inr (m\<lparr>rows := drop_nth k (rows m)\<rparr>))"

definition np_delete_col :: "ndarray \<Rightarrow> int \<Rightarrow> py_error + ndarray" where
  "np_delete_col m idx =
     (case norm_index (ncols m) idx of
        None \<Rightarrow> Inl IndexError
      | Some k \<Rightarrow> Inr \<lparr>ncols = ncols m - 1, rows = map (drop_nth k) (rows m)\<rparr>)"

text \<open>
  \<open>b ** e\<close> on floats, for a base that is not negative (a distance): \<open>b powr e\<close>
  for a positive base, \<open>0.0 ** e = 0.0\<close> for a positive exponent, and \<open>b ** 0.0 = 1.0\<close>
  for every base. The one case that real numbers cannot follow is \<open>0.0 ** e\<close> with
  \<open>e < 0\<close>, which is infinite in floating point: two points at the same place with a
  negative \<open>alpha\<close> are outside the idealisation.
\<close>

definition float_pow :: "real \<Rightarrow> real \<Rightarrow> real" where
  "float_pow b e = (if e = 0 then 1 else b powr e)"

text \<open>\<open>itertools.combinations(range(n), r=2)\<close>: the pairs \<open>i < j\<close> in lexicographic order.\<close>

definition combinations2 :: "nat \<Rightarrow> (nat \<times> nat) list" where
  "combinations2 n = concat (map (\<lambda>i. map (\<lambda>j. (i, j)) [Suc i..<n]) [0..<n])"

subsection \<open>The classes\<close>

record Node =
  x :: real
  y :: real
  r :: real

definition Node_init :: "real \<times> real \<Rightarrow> real \<Rightarrow> Node" where
  "Node_init pos data_rate = \<lparr>x = fst pos, y = snd pos, r = data_rate\<rparr>"

record WSN =
  nodes :: "Node list"
  rho :: real
  alpha :: real
  beta_1 :: real
  beta_2 :: real
  charge_rate :: real
  wcv_x :: real
  wcv_y :: real
  base_x :: real
  base_y :: real
  max_charge :: real
  min_charge :: real
  power_mat :: ndarray

text \<open>
  The two lines of arithmetic that \<open>build_power_matrix\<close> and \<open>add_sensor\<close> share:
  the Euclidean distance of two points and the coefficient
  \<open>beta_1 + beta_2 * dist ** alpha\<close>.
\<close>

definition euclid :: "real \<Rightarrow> real \<Rightarrow> real \<Rightarrow> real \<Rightarrow> real" where
  "euclid xa ya xb yb = sqrt ((xa - xb)\<^sup>2 + (ya - yb)\<^sup>2)"

definition coefficient :: "WSN \<Rightarrow> real \<Rightarrow> real" where
  "coefficient w d = beta_1 w + beta_2 w * float_pow d (alpha w)"

text \<open>
  The loop of \<open>build_power_matrix\<close> over the pairs: two assignments for each pair,
  each of which may raise IndexError after the earlier ones have been done. The pairs
  come from \<open>range(len(x_data))\<close>, so the reads \<open>x_data[i]\<close> and \<open>y_data[j]\<close> are
  always in range.
\<close>

fun build_loop :: "real list \<Rightarrow> real list \<Rightarrow> (nat \<times> nat) list \<Rightarrow> WSN \<Rightarrow> WSN outcome" where
  "build_loop x_data y_data [] w = Returns w"
| "build_loop x_data y_data ((i, j) # ps) w =
     (let dist = euclid (x_data ! i) (y_data ! i) (x_data ! j) (y_data ! j);
          coeff = coefficient w dist
      in case setitem (power_mat w) i j coeff of
           Inl e \<Rightarrow> Raises e w
         | Inr m1 \<Rightarrow>
             (case setitem m1 j i coeff of
                Inl e \<Rightarrow> Raises e (w\<lparr>power_mat := m1\<rparr>)
              | Inr m2 \<Rightarrow> build_loop x_data y_data ps (w\<lparr>power_mat := m2\<rparr>)))"

definition build_power_matrix :: "WSN \<Rightarrow> WSN outcome" where
  "build_power_matrix w =
     (let x_data = base_x w # map x (nodes w);
          y_data = base_y w # map y (nodes w)
      in build_loop x_data y_data (combinations2 (length x_data)) w)"

text \<open>The constructor \<open>WSN.__init__\<close>: the fields, a zero matrix, then the build.\<close>

definition WSN_init ::
  "Node list \<Rightarrow> real \<Rightarrow> real \<Rightarrow> real \<Rightarrow> real \<Rightarrow> real \<Rightarrow> real \<times> real \<Rightarrow> real \<times> real
     \<Rightarrow> real \<Rightarrow> real \<Rightarrow> WSN outcome" where
  "WSN_init nds rho0 alpha0 b1 b2 rate wcv_station base maxc minc =
     build_power_matrix
       \<lparr>nodes = nds, rho = rho0, alpha = alpha0, beta_1 = b1, beta_2 = b2,
        charge_rate = rate, wcv_x = fst wcv_station, wcv_y = snd wcv_station,
        base_x = fst base, base_y = snd base, max_charge = maxc, min_charge = minc,
        power_mat = np_zeros (length nds + 1) (length nds + 1)\<rparr>"

text \<open>
  \<open>add_sensor\<close>: the coefficients of the new node against every node of the list, then
  the append, the new column and the new row, in this order.
\<close>

definition coefflist :: "WSN \<Rightarrow> Node \<Rightarrow> real list" where
  "coefflist w node =
     map (\<lambda>nd. coefficient w (euclid (x nd) (y nd) (x node) (y node))) (nodes w)"

definition add_sensor :: "Node \<Rightarrow> WSN \<Rightarrow> WSN outcome" where
  "add_sensor node w =
     (let cl = coefflist w node;
          w1 = w\<lparr>nodes := nodes w @ [node]\<rparr>
      in case column_stack (power_mat w1) cl of
           Inl e \<Rightarrow> Raises e w1
         | Inr m1 \<Rightarrow>
             (let w2 = w1\<lparr>power_mat := m1\<rparr>
              in case row_stack (power_mat w2) (cl @ [0]) of
                   Inl e \<Rightarrow> Raises e w2
                 | Inr m2 \<Rightarrow> Returns (w2\<lparr>power_mat := m2\<rparr>)))"

text \<open>\<open>remove_sensor\<close>: the node, then the row, then the column, all at \<open>idx\<close>.\<close>

definition remove_sensor :: "int \<Rightarrow> WSN \<Rightarrow> WSN outcome" where
  "remove_sensor idx w =
     (case del_item (nodes w) idx of
        Inl e \<Rightarrow> Raises e w
      | Inr nds \<Rightarrow>
          (let w1 = w\<lparr>nodes := nds\<rparr>
           in case np_delete_row (power_mat w1) idx of
                Inl e \<Rightarrow> Raises e w1
              | Inr m1 \<Rightarrow>
                  (let w2 = w1\<lparr>power_mat := m1\<rparr>
                   in case np_delete_col (power_mat w2) idx of
                        Inl e \<Rightarrow> Raises e w2
                      | Inr m2 \<Rightarrow> Returns (w2\<lparr>power_mat := m2\<rparr>))))"

subsection \<open>What the data model asks of a network\<close>

text \<open>
  The points the matrix is indexed by: the base station at index 0, then the nodes
  (\<open>k\<close> ranges over \<open>0 \<le> k \<le> len(nodes)\<close>), and the coefficient the data model
  expects at \<open>[i][j]\<close>.
\<close>

definition point_x :: "WSN \<Rightarrow> nat \<Rightarrow> real" where
  "point_x w k = (base_x w # map x (nodes w)) ! k"

definition point_y :: "WSN \<Rightarrow> nat \<Rightarrow> real" where
  "point_y w k = (base_y w # map y (nodes w)) ! k"

definition expected :: "WSN \<Rightarrow> nat \<Rightarrow> nat \<Rightarrow> real" where
  "expected w i j =
     coefficient w (euclid (point_x w i) (point_y w i) (point_x w j) (point_y w j))"

definition square_dim :: "ndarray \<Rightarrow> nat \<Rightarrow> bool" where
  "square_dim m d = (nrows m = d \<and> ncols m = d \<and> rect m)"

definition consistent_shape :: "WSN \<Rightarrow> bool" where
  "consistent_shape w = square_dim (power_mat w) (length (nodes w) + 1)"

text \<open>
  The value invariant of the data model: every entry off the diagonal is the coefficient
  of the two points it is indexed by.
\<close>

definition value_inv :: "WSN \<Rightarrow> bool" where
  "value_inv w =
     (\<forall>i<length (nodes w) + 1. \<forall>j<length (nodes w) + 1.
        i \<noteq> j \<longrightarrow> getitem (power_mat w) i j = Some (expected w i j))"

text \<open>Symmetry and the zero diagonal, for a square matrix of any dimension.\<close>

definition sym_zero_diag :: "ndarray \<Rightarrow> bool" where
  "sym_zero_diag m =
     (nrows m = ncols m \<and> rect m
      \<and> (\<forall>i<nrows m. \<forall>j<nrows m. getitem m i j = getitem m j i)
      \<and> (\<forall>i<nrows m. getitem m i i = Some 0))"

text \<open>
  Where an index of the shorter list or matrix comes from after position \<open>k\<close> has
  been deleted.
\<close>

definition skip :: "nat \<Rightarrow> nat \<Rightarrow> nat" where
  "skip k a = (if a < k then a else Suc a)"

text \<open>The coefficient the build loop computes for the pair \<open>(a, b)\<close> of its two arrays.\<close>

definition pair_coeff :: "WSN \<Rightarrow> real list \<Rightarrow> real list \<Rightarrow> nat \<Rightarrow> nat \<Rightarrow> real" where
  "pair_coeff w xd yd a b = coefficient w (euclid (xd ! a) (yd ! a) (xd ! b) (yd ! b))"

text \<open>
  The states a caller can reach: the constructor's result, and the state after any call
  of \<open>add_sensor\<close> or \<open>remove_sensor\<close>, whether the call returned or raised.
\<close>

inductive reachable :: "WSN \<Rightarrow> bool" where
  constructed:
    "WSN_init nds rho0 alpha0 b1 b2 rate wcv_station base maxc minc = Returns w
       \<Longrightarrow> reachable w"
| added: "reachable w \<Longrightarrow> reachable (state_of (add_sensor node w))"
| removed: "reachable w \<Longrightarrow> reachable (state_of (remove_sensor idx w))"

subsection \<open>Example networks\<close>

text \<open>
  One node at the origin and the base station at \<open>(3, 4)\<close>, with \<open>beta_1 = 1\<close>,
  \<open>beta_2 = 2\<close> and \<open>alpha = 1\<close>: the distance is 5 and the coefficient 11. A second
  node at \<open>(6, 8)\<close> is at distance 5 from the base station and 10 from the first node.
\<close>

abbreviation origin_node :: Node where
  "origin_node \<equiv> \<lparr>x = 0, y = 0, r = 1\<rparr>"

abbreviation far_node :: Node where
  "far_node \<equiv> \<lparr>x = 6, y = 8, r = 1\<rparr>"

abbreviation example_net :: "Node list \<Rightarrow> ndarray \<Rightarrow> WSN" where
  "example_net nds m \<equiv>
     \<lparr>nodes = nds, rho = 1, alpha = 1, beta_1 = 1, beta_2 = 2, charge_rate = 1,
      wcv_x = 0, wcv_y = 0, base_x = 3, base_y = 4, max_charge = 10, min_charge = 1,
      power_mat = m\<rparr>"

abbreviation one_node_net :: WSN where
  "one_node_net \<equiv> example_net [origin_node] \<lparr>ncols = 2, rows = [[0, 11], [11, 0]]\<rparr>"

abbreviation two_node_net :: WSN where
  "two_node_net \<equiv>
     example_net [origin_node, far_node]
       \<lparr>ncols = 3, rows = [[0, 11, 11], [11, 0, 21], [11, 21, 0]]\<rparr>"

text \<open>
  A node at \<open>(3, 0)\<close> is at distance 4 from the base station and 3 from the origin, so
  that with the node at the origin the three coefficients 11, 9 and 7 are all different.
\<close>

abbreviation axis_node :: Node where
  "axis_node \<equiv> \<lparr>x = 3, y = 0, r = 1\<rparr>"

abbreviation mixed_net :: WSN where
  "mixed_net \<equiv>
     example_net [origin_node, axis_node]
       \<lparr>ncols = 3, rows = [[0, 11, 9], [11, 0, 7], [9, 7, 0]]\<rparr>"

section \<open>Properties of the operations\<close>

subsection \<open>Indices, deletion and rectangular arrays\<close>

lemma column_stack_mismatch:
  "nrows m \<noteq> length v \<Longrightarrow> column_stack m v = Inl ValueError"
  by (simp add: column_stack_def)

lemma norm_index_out: "idx < - int n \<or> int n \<le> idx \<Longrightarrow> norm_index n idx = None"
  by (auto simp: norm_index_def)

lemma norm_index_nonneg: "0 \<le> idx \<Longrightarrow> idx < int n \<Longrightarrow> norm_index n idx = Some (nat idx)"
  by (auto simp: norm_index_def)

lemma norm_index_neg: "idx < 0 \<Longrightarrow> - int n \<le> idx \<Longrightarrow> norm_index n idx = Some (nat (idx + int n))"
  by (auto simp: norm_index_def)

lemma norm_index_lt: "norm_index n idx = Some k \<Longrightarrow> k < n"
  by (auto simp: norm_index_def split: if_splits)

lemma length_drop_nth: "k < length xs \<Longrightarrow> length (drop_nth k xs) = length xs - 1"
  by (auto simp: drop_nth_def)

lemma nth_drop_nth: "k < length xs \<Longrightarrow> a < length xs - 1 \<Longrightarrow> drop_nth k xs ! a = xs ! skip k a"
  by (auto simp: drop_nth_def skip_def nth_append)

lemma rectD: "rect m \<Longrightarrow> i < nrows m \<Longrightarrow> length (rows m ! i) = ncols m"
  by (simp add: rect_def nrows_def list_all_length)

lemma rectI: "(\<And>i. i < nrows m \<Longrightarrow> length (rows m ! i) = ncols m) \<Longrightarrow> rect m"
  by (simp add: rect_def nrows_def list_all_length)

lemma delete_row_col:
  assumes sq: "square_dim m d" and k: "norm_index d idx = Some k"
  shows "\<exists>m1 m2. np_delete_row m idx = Inr m1 \<and> np_delete_col m1 idx = Inr m2
           \<and> square_dim m2 (d - 1)
           \<and> (\<forall>a<d - 1. \<forall>b<d - 1. getitem m2 a b = getitem m (skip k a) (skip k b))"
proof -
  from k have kd: "k < d" by (rule norm_index_lt)
  from sq have nr: "nrows m = d" and nc: "ncols m = d" and re: "rect m"
    by (simp_all add: square_dim_def)
  define m1 where "m1 = m\<lparr>rows := drop_nth k (rows m)\<rparr>"
  define m2 where "m2 = \<lparr>ncols = ncols m1 - 1, rows = map (drop_nth k) (rows m1)\<rparr>"
  have r1: "np_delete_row m idx = Inr m1"
    using k nr by (simp add: np_delete_row_def m1_def)
  have "ncols m1 = d" by (simp add: m1_def nc)
  then have r2: "np_delete_col m1 idx = Inr m2"
    using k by (simp add: np_delete_col_def m2_def)
  have len: "length (rows m) = d" using nr by (simp add: nrows_def)
  have nr2: "nrows m2 = d - 1"
    using kd len by (simp add: m2_def m1_def nrows_def length_drop_nth)
  have nc2: "ncols m2 = d - 1" by (simp add: m2_def m1_def nc)
  have row2: "rows m2 ! a = drop_nth k (rows m ! skip k a)" if "a < d - 1" for a
    using that kd len by (simp add: m2_def m1_def length_drop_nth nth_drop_nth)
  have skd: "skip k a < d" if "a < d - 1" for a
    using that by (auto simp: skip_def)
  have lrow: "length (rows m ! i) = d" if "i < d" for i
    using rectD [OF re, of i] that nr nc by simp
  have re2: "rect m2"
  proof (rule rectI)
    fix i assume "i < nrows m2"
    then have i: "i < d - 1" by (simp add: nr2)
    show "length (rows m2 ! i) = ncols m2"
      using i kd by (simp add: row2 nc2 length_drop_nth lrow skd)
  qed
  have ent: "getitem m2 a b = getitem m (skip k a) (skip k b)" if "a < d - 1" "b < d - 1" for a b
    using that kd by (simp add: getitem_def nr2 nc2 nr nc skd row2 nth_drop_nth lrow)
  show ?thesis
    using r1 r2 nr2 nc2 re2 ent by (auto simp: square_dim_def)
qed


lemma remove_sensor_gen:
  assumes sq: "square_dim (power_mat w) d"
    and kn: "norm_index (length (nodes w)) idx = Some kn"
    and km: "norm_index d idx = Some km"
  shows "\<exists>m'. remove_sensor idx w = Returns (w\<lparr>nodes := drop_nth kn (nodes w), power_mat := m'\<rparr>)
           \<and> square_dim m' (d - 1)
           \<and> (\<forall>a<d - 1. \<forall>b<d - 1. getitem m' a b = getitem (power_mat w) (skip km a) (skip km b))"
proof -
  from delete_row_col [OF sq km] obtain m1 m2 where
    r1: "np_delete_row (power_mat w) idx = Inr m1" and
    r2: "np_delete_col m1 idx = Inr m2" and
    sq2: "square_dim m2 (d - 1)" and
    ent: "\<forall>a<d - 1. \<forall>b<d - 1. getitem m2 a b = getitem (power_mat w) (skip km a) (skip km b)"
    by blast
  have "remove_sensor idx w = Returns (w\<lparr>nodes := drop_nth kn (nodes w), power_mat := m2\<rparr>)"
    using kn r1 r2 by (simp add: remove_sensor_def del_item_def)
  with sq2 ent show ?thesis by blast
qed

lemma skip_Suc: "skip (Suc k) (Suc a) = Suc (skip k a)"
  by (simp add: skip_def)

lemma skip_inj: "skip k a = skip k b \<Longrightarrow> a = b"
  by (auto simp: skip_def split: if_splits)

lemma drop_nth_map: "drop_nth k (map f xs) = map f (drop_nth k xs)"
  by (simp add: drop_nth_def take_map drop_map)

lemma nth_Cons_drop_nth:
  assumes "k < length xs" and "a < length xs"
  shows "(b # drop_nth k xs) ! a = (b # xs) ! skip (Suc k) a"
proof (cases a)
  case 0
  then show ?thesis by (simp add: skip_def)
next
  case (Suc a')
  with assms have "a' < length xs - 1" by simp
  with assms(1) have "drop_nth k xs ! a' = xs ! skip k a'" by (rule nth_drop_nth)
  with Suc show ?thesis by (simp add: skip_Suc)
qed

lemma expected_after_removal:
  assumes "k < length (nodes w)" and "a < length (nodes w)" and "b < length (nodes w)"
  shows "expected (w\<lparr>nodes := drop_nth k (nodes w), power_mat := m'\<rparr>) a b
           = expected w (skip (Suc k) a) (skip (Suc k) b)"
proof -
  have "(base_x w # drop_nth k (map x (nodes w))) ! c = (base_x w # map x (nodes w)) ! skip (Suc k) c"
    if "c < length (nodes w)" for c
    using assms(1) that by (intro nth_Cons_drop_nth) simp_all
  moreover have "(base_y w # drop_nth k (map y (nodes w))) ! c = (base_y w # map y (nodes w)) ! skip (Suc k) c"
    if "c < length (nodes w)" for c
    using assms(1) that by (intro nth_Cons_drop_nth) simp_all
  ultimately show ?thesis
    using assms(2,3)
    by (simp add: expected_def point_x_def point_y_def coefficient_def drop_nth_map [symmetric])
qed

subsection \<open>The build loop\<close>

lemma euclid_commute: "euclid xa ya xb yb = euclid xb yb xa ya"
  by (simp add: euclid_def power2_commute)

lemma pair_coeff_commute: "pair_coeff w xd yd a b = pair_coeff w xd yd b a"
  unfolding pair_coeff_def by (subst euclid_commute) (rule refl)

lemma pair_coeff_power_mat [simp]:
  "pair_coeff (w\<lparr>power_mat := m\<rparr>) xd yd a b = pair_coeff w xd yd a b"
  by (simp add: pair_coeff_def coefficient_def)

lemma setitem_in_range:
  assumes sq: "square_dim m d" and i: "i < d" and j: "j < d"
  shows "\<exists>m'. setitem m i j v = Inr m' \<and> square_dim m' d
           \<and> (\<forall>a<d. \<forall>b<d. getitem m' a b = (if a = i \<and> b = j then Some v else getitem m a b))"
proof -
  from sq have nr: "nrows m = d" and nc: "ncols m = d" and re: "rect m"
    by (simp_all add: square_dim_def)
  define m' where "m' = m\<lparr>rows := (rows m)[i := (rows m ! i)[j := v]]\<rparr>"
  have s: "setitem m i j v = Inr m'"
    using i j nr nc by (simp add: setitem_def m'_def)
  have len: "length (rows m) = d" using nr by (simp add: nrows_def)
  have lrow: "length (rows m ! a) = d" if "a < d" for a
    using rectD [OF re, of a] that nr nc by simp
  have nr': "nrows m' = d" and nc': "ncols m' = d"
    using len nc by (simp_all add: m'_def nrows_def)
  have re': "rect m'"
  proof (rule rectI)
    fix a assume "a < nrows m'"
    then have "a < d" by (simp add: nr')
    then show "length (rows m' ! a) = ncols m'"
      using len i by (cases "a = i") (simp_all add: m'_def lrow nc)
  qed
  have rows': "rows m' = (rows m)[i := (rows m ! i)[j := v]]"
    by (simp add: m'_def)
  have ent: "getitem m' a b = (if a = i \<and> b = j then Some v else getitem m a b)"
    if a: "a < d" and b: "b < d" for a b
  proof -
    have "rows m' ! a ! b = (if a = i \<and> b = j then v else rows m ! a ! b)"
      using a b i j len lrow by (auto simp: rows' nth_list_update)
    then show ?thesis
      using a b by (simp add: getitem_def nr' nc' nr nc)
  qed
  show ?thesis using s nr' nc' re' ent by (auto simp: square_dim_def)
qed

lemma set_combinations2: "(a, b) \<in> set (combinations2 n) \<longleftrightarrow> a < b \<and> b < n"
  by (auto simp: combinations2_def intro!: bexI [of _ a])


lemma expected_pair_coeff:
  "expected w a b = pair_coeff w (base_x w # map x (nodes w)) (base_y w # map y (nodes w)) a b"
  by (simp add: expected_def pair_coeff_def point_x_def point_y_def)

lemma expected_power_mat: "expected (w\<lparr>power_mat := m\<rparr>) a b = expected w a b"
  by (simp add: expected_def point_x_def point_y_def coefficient_def)

lemma getitem_np_zeros: "a < n \<Longrightarrow> b < k \<Longrightarrow> getitem (np_zeros n k) a b = Some 0"
  by (simp add: getitem_def np_zeros_def nrows_def)

lemma square_dim_np_zeros: "square_dim (np_zeros d d) d"
  by (simp add: square_dim_def np_zeros_def nrows_def rect_def list_all_length)

lemma expected_commute: "expected w a b = expected w b a"
  unfolding expected_def by (subst euclid_commute) (rule refl)

lemma ndarray_eqI:
  assumes "square_dim m1 d" and "square_dim m2 d"
    and "\<And>a b. a < d \<Longrightarrow> b < d \<Longrightarrow> getitem m1 a b = getitem m2 a b"
  shows "m1 = m2"
proof -
  from assms(1) have nr1: "nrows m1 = d" and nc1: "ncols m1 = d" and re1: "rect m1"
    by (simp_all add: square_dim_def)
  from assms(2) have nr2: "nrows m2 = d" and nc2: "ncols m2 = d" and re2: "rect m2"
    by (simp_all add: square_dim_def)
  have "rows m1 = rows m2"
  proof (rule nth_equalityI)
    show "length (rows m1) = length (rows m2)"
      using nr1 nr2 by (simp add: nrows_def)
  next
    fix a assume "a < length (rows m1)"
    then have a: "a < d" using nr1 by (simp add: nrows_def)
    have l1: "length (rows m1 ! a) = d" using rectD [OF re1, of a] a nr1 nc1 by simp
    have l2: "length (rows m2 ! a) = d" using rectD [OF re2, of a] a nr2 nc2 by simp
    show "rows m1 ! a = rows m2 ! a"
    proof (rule nth_equalityI)
      show "length (rows m1 ! a) = length (rows m2 ! a)" using l1 l2 by simp
    next
      fix b assume "b < length (rows m1 ! a)"
      then have b: "b < d" using l1 by simp
      from assms(3) [OF a b] show "rows m1 ! a ! b = rows m2 ! a ! b"
        using a b by (simp add: getitem_def nr1 nr2 nc1 nc2)
    qed
  qed
  then show ?thesis using nc1 nc2 by simp
qed

lemma setitem_out_of_range:
  assumes "square_dim m d" and "\<not> (i < d \<and> j < d)"
  shows "setitem m i j v = Inl IndexError"
  using assms by (auto simp: setitem_def square_dim_def)

lemma build_loop_prefix:
  assumes "square_dim (power_mat w) d"
  shows "\<exists>m'. build_loop xd yd ps w =
               (if \<forall>(i, j)\<in>set ps. i < d \<and> j < d then Returns (w\<lparr>power_mat := m'\<rparr>)
                else Raises IndexError (w\<lparr>power_mat := m'\<rparr>))
           \<and> square_dim m' d
           \<and> (\<forall>a<d. \<forall>b<d. getitem m' a b =
                 (if (a, b) \<in> set (takeWhile (\<lambda>(i, j). i < d \<and> j < d) ps)
                      \<or> (b, a) \<in> set (takeWhile (\<lambda>(i, j). i < d \<and> j < d) ps)
                  then Some (pair_coeff w xd yd a b)
                  else getitem (power_mat w) a b))"
  using assms
proof (induction ps arbitrary: w)
  case Nil
  have "w\<lparr>power_mat := power_mat w\<rparr> = w" by simp
  with Nil show ?case by (intro exI [of _ "power_mat w"]) simp
next
  case (Cons p ps)
  obtain i j where p: "p = (i, j)" by (cases p)
  show ?case
  proof (cases "i < d \<and> j < d")
    case False
    have "setitem (power_mat w) i j v = Inl IndexError" for v
      using Cons.prems False by (rule setitem_out_of_range)
    then have "build_loop xd yd (p # ps) w = Raises IndexError w"
      by (simp add: p Let_def)
    moreover have "w\<lparr>power_mat := power_mat w\<rparr> = w" by simp
    ultimately show ?thesis
      using False Cons.prems by (intro exI [of _ "power_mat w"]) (auto simp: p)
  next
    case True
    then have i: "i < d" and j: "j < d" by simp_all
    define c where "c = pair_coeff w xd yd i j"
    from setitem_in_range [OF Cons.prems i j, of c] obtain m1 where
      s1: "setitem (power_mat w) i j c = Inr m1" and sq1: "square_dim m1 d" and
      e1: "\<forall>a<d. \<forall>b<d. getitem m1 a b =
             (if a = i \<and> b = j then Some c else getitem (power_mat w) a b)"
      by blast
    from setitem_in_range [OF sq1 j i, of c] obtain m2 where
      s2: "setitem m1 j i c = Inr m2" and sq2: "square_dim m2 d" and
      e2: "\<forall>a<d. \<forall>b<d. getitem m2 a b = (if a = j \<and> b = i then Some c else getitem m1 a b)"
      by blast
    have sq2': "square_dim (power_mat (w\<lparr>power_mat := m2\<rparr>)) d" using sq2 by simp
    let ?tw = "takeWhile (\<lambda>(i, j). i < d \<and> j < d)"
    have upd: "w\<lparr>power_mat := m2, power_mat := m\<rparr> = w\<lparr>power_mat := m\<rparr>" for m
      by simp
    have sel: "power_mat (w\<lparr>power_mat := m2\<rparr>) = m2" by simp
    from Cons.IH [OF sq2', unfolded upd sel pair_coeff_power_mat] obtain m' where
      run: "build_loop xd yd ps (w\<lparr>power_mat := m2\<rparr>) =
              (if \<forall>(i, j)\<in>set ps. i < d \<and> j < d then Returns (w\<lparr>power_mat := m'\<rparr>)
               else Raises IndexError (w\<lparr>power_mat := m'\<rparr>))" and
      sq': "square_dim m' d" and
      e': "\<forall>a<d. \<forall>b<d. getitem m' a b =
             (if (a, b) \<in> set (?tw ps) \<or> (b, a) \<in> set (?tw ps)
              then Some (pair_coeff w xd yd a b) else getitem m2 a b)"
      by blast
    have "build_loop xd yd (p # ps) w = build_loop xd yd ps (w\<lparr>power_mat := m2\<rparr>)"
      using s1 s2 by (simp add: p c_def pair_coeff_def)
    with run True have step: "build_loop xd yd (p # ps) w =
        (if \<forall>(i, j)\<in>set (p # ps). i < d \<and> j < d then Returns (w\<lparr>power_mat := m'\<rparr>)
         else Raises IndexError (w\<lparr>power_mat := m'\<rparr>))"
      by (simp add: p)
    have tw: "?tw (p # ps) = p # ?tw ps" using True by (simp add: p)
    have c': "c = pair_coeff w xd yd j i"
      unfolding c_def by (rule pair_coeff_commute)
    have ent: "getitem m' a b =
         (if (a, b) \<in> set (?tw (p # ps)) \<or> (b, a) \<in> set (?tw (p # ps))
          then Some (pair_coeff w xd yd a b) else getitem (power_mat w) a b)"
      if a: "a < d" and b: "b < d" for a b
    proof (cases "(a, b) \<in> set (?tw ps) \<or> (b, a) \<in> set (?tw ps)")
      case True
      then show ?thesis using e' a b unfolding tw by auto
    next
      case False
      then have "getitem m' a b = getitem m2 a b" using e' a b by simp
      also have "\<dots> = (if a = j \<and> b = i then Some c else if a = i \<and> b = j then Some c
                       else getitem (power_mat w) a b)"
        using e1 e2 a b by simp
      finally have g: "getitem m' a b =
          (if a = j \<and> b = i then Some c else if a = i \<and> b = j then Some c
           else getitem (power_mat w) a b)" .
      show ?thesis
      proof (cases "a = i \<and> b = j")
        case True
        have "getitem m' a b = Some c" using g True by simp
        moreover have "(a, b) \<in> set (?tw (p # ps))" unfolding tw using True p by simp
        moreover have "pair_coeff w xd yd a b = c" unfolding c_def using True by simp
        ultimately show ?thesis by simp
      next
        case ij: False
        show ?thesis
        proof (cases "a = j \<and> b = i")
          case True
          have "getitem m' a b = Some c" using g True by simp
          moreover have "(b, a) \<in> set (?tw (p # ps))" unfolding tw using True p by simp
          moreover have "pair_coeff w xd yd a b = c" unfolding c' using True by simp
          ultimately show ?thesis by simp
        next
          case ji: False
          have "getitem m' a b = getitem (power_mat w) a b" using g ij ji by simp
          moreover have "\<not> ((a, b) \<in> set (?tw (p # ps)) \<or> (b, a) \<in> set (?tw (p # ps)))"
            unfolding tw using False ij ji p by auto
          ultimately show ?thesis by (simp only: if_False)
        qed
      qed
    qed
    from step sq' ent show ?thesis by blast
  qed
qed

lemma build_power_matrix_entries:
  assumes "consistent_shape w"
  shows "\<exists>m'. build_power_matrix w = Returns (w\<lparr>power_mat := m'\<rparr>)
           \<and> square_dim m' (length (nodes w) + 1)
           \<and> (\<forall>a<length (nodes w) + 1. \<forall>b<length (nodes w) + 1.
                 getitem m' a b =
                 (if a \<noteq> b then Some (expected w a b) else getitem (power_mat w) a b))"
proof -
  define d where "d = length (nodes w) + 1"
  define xd where "xd = base_x w # map x (nodes w)"
  define yd where "yd = base_y w # map y (nodes w)"
  have sq: "square_dim (power_mat w) d"
    using assms by (simp add: consistent_shape_def d_def)
  have rng: "\<forall>(i, j)\<in>set (combinations2 d). i < d \<and> j < d"
    by (auto simp: set_combinations2)
  then have tw: "takeWhile (\<lambda>(i, j). i < d \<and> j < d) (combinations2 d) = combinations2 d"
    by (simp add: takeWhile_eq_all_conv)
  from build_loop_prefix [OF sq, of xd yd "combinations2 d", unfolded tw] rng obtain m' where
    run: "build_loop xd yd (combinations2 d) w = Returns (w\<lparr>power_mat := m'\<rparr>)" and
    sq': "square_dim m' d" and
    ent: "\<forall>a<d. \<forall>b<d. getitem m' a b =
            (if (a, b) \<in> set (combinations2 d) \<or> (b, a) \<in> set (combinations2 d)
             then Some (pair_coeff w xd yd a b) else getitem (power_mat w) a b)"
    by auto
  have "build_power_matrix w = Returns (w\<lparr>power_mat := m'\<rparr>)"
    using run by (simp add: build_power_matrix_def xd_def yd_def d_def)
  moreover have "getitem m' a b =
      (if a \<noteq> b then Some (expected w a b) else getitem (power_mat w) a b)"
    if "a < d" "b < d" for a b
    using ent that by (auto simp: set_combinations2 expected_pair_coeff xd_def yd_def)
  ultimately show ?thesis using sq' unfolding d_def by blast
qed

lemma WSN_init_entries:
  "\<exists>w. WSN_init nds rho0 alpha0 b1 b2 rate wcv_station base maxc minc = Returns w
      \<and> nodes w = nds \<and> alpha w = alpha0 \<and> beta_1 w = b1 \<and> beta_2 w = b2
      \<and> base_x w = fst base \<and> base_y w = snd base
      \<and> square_dim (power_mat w) (length nds + 1)
      \<and> (\<forall>i<length nds + 1. \<forall>j<length nds + 1.
            getitem (power_mat w) i j = (if i \<noteq> j then Some (expected w i j) else Some 0))"
proof -
  define w0 where "w0 =
    \<lparr>nodes = nds, rho = rho0, alpha = alpha0, beta_1 = b1, beta_2 = b2,
     charge_rate = rate, wcv_x = fst wcv_station, wcv_y = snd wcv_station,
     base_x = fst base, base_y = snd base, max_charge = maxc, min_charge = minc,
     power_mat = np_zeros (length nds + 1) (length nds + 1)\<rparr>"
  have n0: "nodes w0 = nds" and pm0: "power_mat w0 = np_zeros (length nds + 1) (length nds + 1)"
    by (simp_all add: w0_def)
  have "consistent_shape w0"
    unfolding consistent_shape_def n0 pm0 by (rule square_dim_np_zeros)
  from build_power_matrix_entries [OF this] obtain m' where
    run: "build_power_matrix w0 = Returns (w0\<lparr>power_mat := m'\<rparr>)" and
    sq': "square_dim m' (length nds + 1)" and
    ent: "\<forall>a<length nds + 1. \<forall>b<length nds + 1. getitem m' a b =
            (if a \<noteq> b then Some (expected w0 a b) else getitem (power_mat w0) a b)"
    unfolding n0 by blast
  define w where "w = w0\<lparr>power_mat := m'\<rparr>"
  have ex: "expected w a b = expected w0 a b" for a b
    unfolding w_def by (rule expected_power_mat)
  have "getitem (power_mat w) a b = (if a \<noteq> b then Some (expected w a b) else Some 0)"
    if "a < length nds + 1" "b < length nds + 1" for a b
    using ent that by (simp add: w_def ex [unfolded w_def] pm0 getitem_np_zeros)
  moreover have "WSN_init nds rho0 alpha0 b1 b2 rate wcv_station base maxc minc = Returns w"
    using run by (simp add: WSN_init_def w0_def w_def)
  moreover have "nodes w = nds" "alpha w = alpha0" "beta_1 w = b1" "beta_2 w = b2"
    "base_x w = fst base" "base_y w = snd base"
    by (simp_all add: w_def w0_def)
  moreover have "square_dim (power_mat w) (length nds + 1)"
    using sq' by (simp add: w_def)
  ultimately show ?thesis by blast
qed

subsection \<open>Stacking a column and a row\<close>

lemma stack_column_row:
  assumes sq: "square_dim m d" and v: "length v = d"
  shows "\<exists>m1 m2. column_stack m v = Inr m1 \<and> row_stack m1 (v @ [0]) = Inr m2
           \<and> square_dim m2 (d + 1)
           \<and> (\<forall>a<d + 1. \<forall>b<d + 1. getitem m2 a b =
                 (if a < d then (if b < d then getitem m a b else Some (v ! a))
                  else if b < d then Some (v ! b) else Some 0))"
proof -
  from sq have nr: "nrows m = d" and nc: "ncols m = d" and re: "rect m"
    by (simp_all add: square_dim_def)
  have len: "length (rows m) = d" using nr by (simp add: nrows_def)
  have lrow: "length (rows m ! a) = d" if "a < d" for a
    using rectD [OF re, of a] that nr nc by simp
  define m1 where "m1 = \<lparr>ncols = ncols m + 1, rows = map2 (\<lambda>row c. row @ [c]) (rows m) v\<rparr>"
  define m2 where "m2 = \<lparr>ncols = ncols m1, rows = rows m1 @ [v @ [0]]\<rparr>"
  have c: "column_stack m v = Inr m1"
    using nr v by (simp add: column_stack_def m1_def)
  have "ncols m1 = length (v @ [0])" using nc v by (simp add: m1_def)
  then have r: "row_stack m1 (v @ [0]) = Inr m2"
    by (simp add: row_stack_def m2_def)
  have nr2: "nrows m2 = d + 1" using len v by (simp add: m2_def m1_def nrows_def)
  have nc2: "ncols m2 = d + 1" using nc by (simp add: m2_def m1_def)
  have row_lt: "rows m2 ! a = rows m ! a @ [v ! a]" if "a < d" for a
    using that len v by (simp add: m2_def m1_def nth_append)
  have row_d: "rows m2 ! d = v @ [0]"
    using len v by (simp add: m2_def m1_def nth_append)
  have re2: "rect m2"
  proof (rule rectI)
    fix a assume "a < nrows m2"
    then have "a < d \<or> a = d" using nr2 by auto
    then show "length (rows m2 ! a) = ncols m2"
    proof
      assume "a < d"
      then show ?thesis by (simp add: row_lt lrow nc2)
    next
      assume "a = d"
      then show ?thesis by (simp add: row_d nc2 v)
    qed
  qed
  have ent: "getitem m2 a b =
       (if a < d then (if b < d then getitem m a b else Some (v ! a))
        else if b < d then Some (v ! b) else Some 0)" if a: "a < d + 1" and b: "b < d + 1" for a b
  proof (cases "a < d")
    case True
    then show ?thesis
      using b by (auto simp: getitem_def nr2 nc2 nr nc row_lt nth_append lrow)
  next
    case False
    with a have "a = d" by simp
    then show ?thesis
      using b by (auto simp: getitem_def nr2 nc2 row_d nth_append v)
  qed
  show ?thesis using c r nr2 nc2 re2 ent by (auto simp: square_dim_def)
qed

subsection \<open>Symmetry and the zero diagonal are kept\<close>

lemma sym_zero_diagI:
  assumes "square_dim m d"
    and "\<And>i j. i < d \<Longrightarrow> j < d \<Longrightarrow> getitem m i j = getitem m j i"
    and "\<And>i. i < d \<Longrightarrow> getitem m i i = Some 0"
  shows "sym_zero_diag m"
  using assms by (simp add: sym_zero_diag_def square_dim_def)

lemma sym_zero_diagD:
  assumes "sym_zero_diag m"
  shows "square_dim m (nrows m)"
    and "i < nrows m \<Longrightarrow> j < nrows m \<Longrightarrow> getitem m i j = getitem m j i"
    and "i < nrows m \<Longrightarrow> getitem m i i = Some 0"
  using assms by (simp_all add: sym_zero_diag_def square_dim_def)

lemma skip_less: "a < d - 1 \<Longrightarrow> skip k a < d"
  by (auto simp: skip_def)

lemma sym_after_remove:
  assumes "sym_zero_diag (power_mat w)"
  shows "sym_zero_diag (power_mat (state_of (remove_sensor idx w)))"
proof (cases "del_item (nodes w) idx")
  case (Inl e)
  then show ?thesis using assms by (simp add: remove_sensor_def)
next
  case (Inr nds)
  define d where "d = nrows (power_mat w)"
  have sq: "square_dim (power_mat w) d"
    unfolding d_def using assms by (rule sym_zero_diagD)
  show ?thesis
  proof (cases "norm_index d idx")
    case None
    then have "np_delete_row (power_mat w) idx = Inl IndexError"
      by (simp add: np_delete_row_def d_def)
    with Inr show ?thesis using assms by (simp add: remove_sensor_def)
  next
    case (Some k)
    from delete_row_col [OF sq Some] obtain m1 m2 where
      r1: "np_delete_row (power_mat w) idx = Inr m1" and
      r2: "np_delete_col m1 idx = Inr m2" and
      sq2: "square_dim m2 (d - 1)" and
      ent: "\<forall>a<d - 1. \<forall>b<d - 1. getitem m2 a b = getitem (power_mat w) (skip k a) (skip k b)"
      by blast
    have "sym_zero_diag m2"
    proof (rule sym_zero_diagI [OF sq2])
      fix i j assume i: "i < d - 1" and j: "j < d - 1"
      have "getitem (power_mat w) (skip k i) (skip k j) = getitem (power_mat w) (skip k j) (skip k i)"
        using assms skip_less [OF i] skip_less [OF j] unfolding d_def by (rule sym_zero_diagD)
      then show "getitem m2 i j = getitem m2 j i" using ent i j by simp
    next
      fix i assume i: "i < d - 1"
      have "getitem (power_mat w) (skip k i) (skip k i) = Some 0"
        using assms skip_less [OF i] unfolding d_def by (rule sym_zero_diagD)
      then show "getitem m2 i i = Some 0" using ent i by simp
    qed
    moreover have "power_mat (state_of (remove_sensor idx w)) = m2"
      using Inr r1 r2 by (simp add: remove_sensor_def)
    ultimately show ?thesis by simp
  qed
qed

lemma sym_after_add:
  assumes "sym_zero_diag (power_mat w)"
  shows "sym_zero_diag (power_mat (state_of (add_sensor node w)))"
proof (cases "nrows (power_mat w) = length (coefflist w node)")
  case False
  then have "column_stack (power_mat w) (coefflist w node) = Inl ValueError"
    by (rule column_stack_mismatch)
  then show ?thesis using assms by (simp add: add_sensor_def Let_def)
next
  case True
  define d where "d = nrows (power_mat w)"
  define v where "v = coefflist w node"
  have sq: "square_dim (power_mat w) d"
    unfolding d_def using assms by (rule sym_zero_diagD)
  have lv: "length v = d" using True by (simp add: v_def d_def)
  from stack_column_row [OF sq lv] obtain m1 m2 where
    c: "column_stack (power_mat w) v = Inr m1" and
    r: "row_stack m1 (v @ [0]) = Inr m2" and
    sq2: "square_dim m2 (d + 1)" and
    ent: "\<forall>a<d + 1. \<forall>b<d + 1. getitem m2 a b =
            (if a < d then (if b < d then getitem (power_mat w) a b else Some (v ! a))
             else if b < d then Some (v ! b) else Some 0)"
    by blast
  have "sym_zero_diag m2"
  proof (rule sym_zero_diagI [OF sq2])
    fix i j assume i: "i < d + 1" and j: "j < d + 1"
    have "getitem (power_mat w) i j = getitem (power_mat w) j i" if "i < d" "j < d"
      using assms that unfolding d_def by (rule sym_zero_diagD)
    then show "getitem m2 i j = getitem m2 j i" using ent i j by auto
  next
    fix i assume i: "i < d + 1"
    have "getitem (power_mat w) i i = Some 0" if "i < d"
      using assms that unfolding d_def by (rule sym_zero_diagD)
    then show "getitem m2 i i = Some 0" using ent i by auto
  qed
  moreover have "power_mat (state_of (add_sensor node w)) = m2"
    using c r by (simp add: add_sensor_def Let_def v_def)
  ultimately show ?thesis by simp
qed

lemma sym_after_init:
  assumes "WSN_init nds rho0 alpha0 b1 b2 rate wcv_station base maxc minc = Returns w"
  shows "sym_zero_diag (power_mat w)"
proof -
  from WSN_init_entries [of nds rho0 alpha0 b1 b2 rate wcv_station base maxc minc] assms
  have sq: "square_dim (power_mat w) (length nds + 1)" and
    ent: "\<forall>i<length nds + 1. \<forall>j<length nds + 1.
            getitem (power_mat w) i j = (if i \<noteq> j then Some (expected w i j) else Some 0)"
    by auto
  show ?thesis
  proof (rule sym_zero_diagI [OF sq])
    fix i j assume "i < length nds + 1" "j < length nds + 1"
    then show "getitem (power_mat w) i j = getitem (power_mat w) j i"
      using ent expected_commute [of w i j] by auto
  next
    fix i assume "i < length nds + 1"
    then show "getitem (power_mat w) i i = Some 0" using ent by simp
  qed
qed

lemma reachable_sym_zero_diag: "reachable w \<Longrightarrow> sym_zero_diag (power_mat w)"
proof (induction rule: reachable.induct)
  case (constructed nds rho0 alpha0 b1 b2 rate wcv_station base maxc minc w)
  then show ?case by (rule sym_after_init)
next
  case (added w node)
  from added.IH show ?case by (rule sym_after_add)
next
  case (removed w idx)
  from removed.IH show ?case by (rule sym_after_remove)
qed

subsection \<open>The example networks, evaluated\<close>

lemma sqrt_25: "sqrt 25 = 5"
  by (rule real_sqrt_unique) simp_all

lemma sqrt_100: "sqrt 100 = 10"
  by (rule real_sqrt_unique) simp_all

lemma sqrt_9: "sqrt 9 = 3"
  by (rule real_sqrt_unique) simp_all

lemma sqrt_16: "sqrt 16 = 4"
  by (rule real_sqrt_unique) simp_all

lemma float_pow_one: "0 \<le> d \<Longrightarrow> float_pow d 1 = d"
  by (simp add: float_pow_def)

lemmas build_eval =
  WSN_init_def build_power_matrix_def combinations2_def np_zeros_def setitem_def nrows_def
  coefficient_def euclid_def sqrt_25 sqrt_100 float_pow_one

lemma one_node_net_constructed:
  "WSN_init [origin_node] 1 1 1 2 1 (0, 0) (3, 4) 10 1 = Returns one_node_net"
  by (simp add: build_eval)

lemma two_node_net_constructed:
  "WSN_init [origin_node, far_node] 1 1 1 2 1 (0, 0) (3, 4) 10 1 = Returns two_node_net"
  by (simp add: build_eval)

lemma mixed_net_constructed:
  "WSN_init [origin_node, axis_node] 1 1 1 2 1 (0, 0) (3, 4) 10 1 = Returns mixed_net"
  by (simp add: build_eval sqrt_9 sqrt_16)

lemma square_dim_one_node_net: "square_dim (power_mat one_node_net) 2"
  by (simp add: square_dim_def nrows_def rect_def)

lemma square_dim_two_node_net: "square_dim (power_mat two_node_net) 3"
  by (simp add: square_dim_def nrows_def rect_def)

lemmas remove_eval =
  remove_sensor_def del_item_def np_delete_row_def np_delete_col_def norm_index_def
  drop_nth_def nrows_def

lemmas add_eval =
  add_sensor_def coefflist_def column_stack_def row_stack_def nrows_def

section \<open>The claims\<close>

text \<open>
  C1, evaluated where it fails: the constructor builds the network of the two example
  nodes, and \<open>remove_sensor(0)\<close> returns with the node list \<open>[far_node]\<close> and the matrix
  without its row 0 and column 0, which are the base station's. The entry \<open>[0][1]\<close> is
  then 21, the coefficient between the removed node and the remaining one, and not the
  coefficient 11 between the base station and the remaining node.
\<close>

theorem remove_sensor_deletes_base_row:
  "WSN_init [origin_node, far_node] 1 1 1 2 1 (0, 0) (3, 4) 10 1 = Returns two_node_net
     \<and> remove_sensor 0 two_node_net =
         Returns (example_net [far_node] \<lparr>ncols = 2, rows = [[0, 21], [21, 0]]\<rparr>)
     \<and> getitem \<lparr>ncols = 2, rows = [[0, 21], [21, 0]]\<rparr> 0 1 = Some 21
     \<and> expected (example_net [far_node] \<lparr>ncols = 2, rows = [[0, 21], [21, 0]]\<rparr>) 0 1 = 11"
proof -
  have "remove_sensor 0 two_node_net =
      Returns (example_net [far_node] \<lparr>ncols = 2, rows = [[0, 21], [21, 0]]\<rparr>)"
    by (simp add: remove_eval)
  moreover have "getitem \<lparr>ncols = 2, rows = [[0, 21], [21, 0]]\<rparr> 0 1 = Some 21"
    by (simp add: getitem_def nrows_def)
  moreover have
    "expected (example_net [far_node] \<lparr>ncols = 2, rows = [[0, 21], [21, 0]]\<rparr>) 0 1 = 11"
    by (simp add: expected_def point_x_def point_y_def coefficient_def euclid_def
        sqrt_25 float_pow_one)
  ultimately show ?thesis
    using two_node_net_constructed by simp
qed

text \<open>
  C2: the constructor returns, for every node list and all parameters; the matrix of the
  network it returns is square of dimension \<open>len(nodes) + 1\<close>, symmetric, zero on the
  diagonal, and off the diagonal \<open>[i][j]\<close> is
  \<open>beta_1 + beta_2 * distance(point_i, point_j) ** alpha\<close>.
\<close>

theorem WSN_init_power_matrix:
  "\<exists>w. WSN_init nds rho0 alpha0 b1 b2 rate wcv_station base maxc minc = Returns w
      \<and> nodes w = nds \<and> alpha w = alpha0 \<and> beta_1 w = b1 \<and> beta_2 w = b2
      \<and> base_x w = fst base \<and> base_y w = snd base
      \<and> square_dim (power_mat w) (length nds + 1)
      \<and> (\<forall>i<length nds + 1. \<forall>j<length nds + 1.
            getitem (power_mat w) i j = getitem (power_mat w) j i)
      \<and> (\<forall>i<length nds + 1. getitem (power_mat w) i i = Some 0)
      \<and> (\<forall>i<length nds + 1. \<forall>j<length nds + 1.
            i \<noteq> j \<longrightarrow> getitem (power_mat w) i j = Some (expected w i j))"
proof -
  from WSN_init_entries [of nds rho0 alpha0 b1 b2 rate wcv_station base maxc minc]
  obtain w where
    ret: "WSN_init nds rho0 alpha0 b1 b2 rate wcv_station base maxc minc = Returns w" and
    fields: "nodes w = nds" "alpha w = alpha0" "beta_1 w = b1" "beta_2 w = b2"
      "base_x w = fst base" "base_y w = snd base" and
    sq: "square_dim (power_mat w) (length nds + 1)" and
    e: "\<forall>i<length nds + 1. \<forall>j<length nds + 1.
          getitem (power_mat w) i j = (if i \<noteq> j then Some (expected w i j) else Some 0)"
    by blast
  have "\<forall>i<length nds + 1. \<forall>j<length nds + 1.
      getitem (power_mat w) i j = getitem (power_mat w) j i"
    using e expected_commute [of w] by auto
  moreover have "\<forall>i<length nds + 1. getitem (power_mat w) i i = Some 0"
    using e by simp
  moreover have "\<forall>i<length nds + 1. \<forall>j<length nds + 1.
      i \<noteq> j \<longrightarrow> getitem (power_mat w) i j = Some (expected w i j)"
    using e by simp
  ultimately show ?thesis using ret fields sq by blast
qed

text \<open>
  The example of the specification: one node at the origin, the base station at
  \<open>(3, 4)\<close>; the entry \<open>[0][1]\<close> is the expected coefficient, which is 11.
\<close>

theorem WSN_init_power_matrix_witness:
  "(0::nat) < length [origin_node] + 1 \<and> (1::nat) < length [origin_node] + 1 \<and> (0::nat) \<noteq> 1
     \<and> getitem (power_mat (state_of (WSN_init [origin_node] 1 1 1 2 1 (0, 0) (3, 4) 10 1))) 0 1
         = Some (expected (state_of (WSN_init [origin_node] 1 1 1 2 1 (0, 0) (3, 4) 10 1)) 0 1)
     \<and> expected (state_of (WSN_init [origin_node] 1 1 1 2 1 (0, 0) (3, 4) 10 1)) 0 1 = 11"
proof -
  from WSN_init_power_matrix [of "[origin_node]" 1 1 1 2 1 "(0, 0)" "(3, 4)" 10 1]
  obtain w where
    ret: "WSN_init [origin_node] 1 1 1 2 1 (0, 0) (3, 4) 10 1 = Returns w" and
    val: "\<forall>i<length [origin_node] + 1. \<forall>j<length [origin_node] + 1.
            i \<noteq> j \<longrightarrow> getitem (power_mat w) i j = Some (expected w i j)"
    by blast
  have "(0::nat) < length [origin_node] + 1" "(1::nat) < length [origin_node] + 1" "(0::nat) \<noteq> 1"
    by simp_all
  with val have "getitem (power_mat w) 0 1 = Some (expected w 0 1)" by blast
  moreover have "w = one_node_net"
    using ret one_node_net_constructed by simp
  moreover have "expected one_node_net 0 1 = 11"
    by (simp add: expected_def point_x_def point_y_def coefficient_def euclid_def
        sqrt_25 float_pow_one)
  ultimately show ?thesis using ret by simp
qed

text \<open>
  C3, evaluated where it fails: on the one-node network that the constructor returns,
  \<open>add_sensor\<close> raises ValueError in \<open>np.column_stack\<close>. The node list has grown by
  then, and the matrix still has dimension 2, not 3.
\<close>

theorem add_sensor_example_raises:
  "add_sensor far_node one_node_net =
     Raises ValueError (example_net [origin_node, far_node] \<lparr>ncols = 2, rows = [[0, 11], [11, 0]]\<rparr>)
   \<and> nrows (power_mat (state_of (add_sensor far_node one_node_net))) = 2"
  by (simp add: add_eval)

text \<open>
  C4: for an index \<open>0 \<le> idx < len(nodes)\<close> and a square matrix with at least
  \<open>len(nodes)\<close> rows, \<open>remove_sensor(idx)\<close> returns; the node list has lost its element
  \<open>idx\<close>, the matrix its row \<open>idx\<close> and its column \<open>idx\<close> (the same index, not
  \<open>idx + 1\<close>), and the dimension is one less.
\<close>

theorem remove_sensor_valid_index:
  assumes "0 \<le> idx" and "idx < int (length (nodes w))"
    and "square_dim (power_mat w) d" and "length (nodes w) \<le> d"
  shows "\<exists>m'. remove_sensor idx w =
                Returns (w\<lparr>nodes := drop_nth (nat idx) (nodes w), power_mat := m'\<rparr>)
           \<and> length (drop_nth (nat idx) (nodes w)) = length (nodes w) - 1
           \<and> (\<forall>a<length (nodes w) - 1.
                 drop_nth (nat idx) (nodes w) ! a = nodes w ! skip (nat idx) a)
           \<and> square_dim m' (d - 1)
           \<and> (\<forall>a<d - 1. \<forall>b<d - 1.
                 getitem m' a b = getitem (power_mat w) (skip (nat idx) a) (skip (nat idx) b))"
proof -
  have kn: "norm_index (length (nodes w)) idx = Some (nat idx)"
    using assms(1,2) by (rule norm_index_nonneg)
  have "idx < int d" using assms(2,4) by linarith
  with assms(1) have km: "norm_index d idx = Some (nat idx)"
    by (rule norm_index_nonneg)
  have lt: "nat idx < length (nodes w)" using assms(1,2) by linarith
  from remove_sensor_gen [OF assms(3) kn km] obtain m' where
    "remove_sensor idx w = Returns (w\<lparr>nodes := drop_nth (nat idx) (nodes w), power_mat := m'\<rparr>)"
    "square_dim m' (d - 1)"
    "\<forall>a<d - 1. \<forall>b<d - 1. getitem m' a b = getitem (power_mat w) (skip (nat idx) a) (skip (nat idx) b)"
    by blast
  then show ?thesis
    using lt by (auto simp: length_drop_nth nth_drop_nth)
qed

theorem remove_sensor_valid_index_witness:
  "(0::int) \<le> 0 \<and> 0 < int (length (nodes two_node_net))
     \<and> square_dim (power_mat two_node_net) 3 \<and> length (nodes two_node_net) \<le> 3
     \<and> remove_sensor 0 two_node_net =
         Returns (example_net [far_node] \<lparr>ncols = 2, rows = [[0, 21], [21, 0]]\<rparr>)
     \<and> getitem \<lparr>ncols = 2, rows = [[0, 21], [21, 0]]\<rparr> 0 1
         = getitem (power_mat two_node_net) 1 2
     \<and> getitem (power_mat two_node_net) 1 2 = Some 21"
proof -
  have h: "(0::int) \<le> 0" "0 < int (length (nodes two_node_net))"
    "square_dim (power_mat two_node_net) 3" "length (nodes two_node_net) \<le> 3"
    using square_dim_two_node_net by simp_all
  from remove_sensor_valid_index [OF h] obtain m' where
    ret: "remove_sensor 0 two_node_net =
            Returns (two_node_net\<lparr>nodes := drop_nth (nat 0) (nodes two_node_net), power_mat := m'\<rparr>)" and
    ent: "\<forall>a<3 - 1. \<forall>b<3 - 1. getitem m' a b =
            getitem (power_mat two_node_net) (skip (nat 0) a) (skip (nat 0) b)"
    by blast
  have ev: "remove_sensor 0 two_node_net =
      Returns (example_net [far_node] \<lparr>ncols = 2, rows = [[0, 21], [21, 0]]\<rparr>)"
    by (simp add: remove_eval)
  with ret have m': "m' = \<lparr>ncols = 2, rows = [[0, 21], [21, 0]]\<rparr>" by simp
  have "(0::nat) < 3 - 1" "(1::nat) < 3 - 1" by simp_all
  with ent have "getitem m' 0 1 = getitem (power_mat two_node_net) (skip (nat 0) 0) (skip (nat 0) 1)"
    by blast
  then have e: "getitem \<lparr>ncols = 2, rows = [[0, 21], [21, 0]]\<rparr> 0 1
      = getitem (power_mat two_node_net) 1 2"
    by (simp add: m' skip_def numeral_2_eq_2)
  have v: "getitem (power_mat two_node_net) 1 2 = Some 21"
    by (simp add: getitem_def nrows_def)
  from h ev e v show ?thesis by (simp only: simp_thms)
qed

text \<open>
  C5, as the code has it: \<open>remove_sensor(idx)\<close> raises IndexError and leaves the network
  as it was when \<open>idx \<ge> len(nodes)\<close> or \<open>idx < -len(nodes)\<close>.
\<close>

theorem remove_sensor_out_of_range:
  assumes "idx < - int (length (nodes w)) \<or> int (length (nodes w)) \<le> idx"
  shows "remove_sensor idx w = Raises IndexError w"
  using assms by (simp add: remove_sensor_def del_item_def norm_index_out)

theorem remove_sensor_out_of_range_witness:
  "((1::int) < - int (length (nodes one_node_net)) \<or> int (length (nodes one_node_net)) \<le> 1)
     \<and> remove_sensor 1 one_node_net = Raises IndexError one_node_net"
proof -
  have h: "(1::int) < - int (length (nodes one_node_net)) \<or> int (length (nodes one_node_net)) \<le> 1"
    by simp
  from remove_sensor_out_of_range [OF h] h show ?thesis by simp
qed

text \<open>
  C5 as stated fails at the negative index \<open>-1\<close>: on the one-node network
  \<open>remove_sensor(-1)\<close> returns, and the network has changed.
\<close>

theorem remove_sensor_negative_counterexample:
  "(-1::int) < 0
     \<and> remove_sensor (-1) one_node_net = Returns (example_net [] \<lparr>ncols = 1, rows = [[0]]\<rparr>)
     \<and> remove_sensor (-1) one_node_net \<noteq> Raises IndexError one_node_net"
  by (simp add: remove_eval)

text \<open>
  C6: in every state reached from the constructor by calls of \<open>add_sensor\<close> and
  \<open>remove_sensor\<close> (returning or raising), the matrix is square, symmetric and zero on
  its diagonal.
\<close>

theorem reachable_symmetric_zero_diagonal:
  assumes "reachable w"
  shows "nrows (power_mat w) = ncols (power_mat w)
           \<and> (\<forall>i<nrows (power_mat w). \<forall>j<nrows (power_mat w).
                 getitem (power_mat w) i j = getitem (power_mat w) j i)
           \<and> (\<forall>i<nrows (power_mat w). getitem (power_mat w) i i = Some 0)"
  using reachable_sym_zero_diag [OF assms] by (simp add: sym_zero_diag_def)

theorem reachable_symmetric_zero_diagonal_witness:
  "reachable (state_of (remove_sensor 0 two_node_net))
     \<and> getitem (power_mat (state_of (remove_sensor 0 two_node_net))) 0 1 = Some 21
     \<and> getitem (power_mat (state_of (remove_sensor 0 two_node_net))) 1 0 = Some 21
     \<and> getitem (power_mat (state_of (remove_sensor 0 two_node_net))) 1 1 = Some 0"
proof -
  have "reachable two_node_net"
    using two_node_net_constructed by (rule reachable.constructed)
  then have re: "reachable (state_of (remove_sensor 0 two_node_net))"
    by (rule reachable.removed)
  have st: "state_of (remove_sensor 0 two_node_net) =
      example_net [far_node] \<lparr>ncols = 2, rows = [[0, 21], [21, 0]]\<rparr>"
    by (simp add: remove_eval)
  have n: "nrows (power_mat (state_of (remove_sensor 0 two_node_net))) = 2"
    by (simp add: st nrows_def)
  have g: "getitem (power_mat (state_of (remove_sensor 0 two_node_net))) 0 1 = Some 21"
    by (simp add: st getitem_def nrows_def)
  from reachable_symmetric_zero_diagonal [OF re, unfolded n]
  have "getitem (power_mat (state_of (remove_sensor 0 two_node_net))) 0 1
          = getitem (power_mat (state_of (remove_sensor 0 two_node_net))) 1 0"
    and "getitem (power_mat (state_of (remove_sensor 0 two_node_net))) 1 1 = Some 0"
    by simp_all
  with re g show ?thesis by simp
qed

text \<open>
  C7: on a square matrix of any dimension, a second call of \<open>build_power_matrix\<close> ends
  as the first did and leaves the network, and so every entry of the matrix, as the
  first call left it; when the dimension is \<open>len(nodes) + 1\<close> both calls return.
\<close>

theorem build_power_matrix_idempotent:
  assumes "square_dim (power_mat w) d"
  shows "build_power_matrix (state_of (build_power_matrix w)) = build_power_matrix w
           \<and> (d = length (nodes w) + 1 \<longrightarrow> returns (build_power_matrix w))"
proof -
  define xd where "xd = base_x w # map x (nodes w)"
  define yd where "yd = base_y w # map y (nodes w)"
  define ps where "ps = combinations2 (length (nodes w) + 1)"
  define ok where "ok \<longleftrightarrow> (\<forall>(i, j)\<in>set ps. i < d \<and> j < d)"
  define T where "T = set (takeWhile (\<lambda>(i, j). i < d \<and> j < d) ps)"
  from build_loop_prefix [OF assms, of xd yd ps, folded ok_def T_def] obtain m1 where
    run1: "build_loop xd yd ps w =
             (if ok then Returns (w\<lparr>power_mat := m1\<rparr>) else Raises IndexError (w\<lparr>power_mat := m1\<rparr>))" and
    sq1: "square_dim m1 d" and
    e1: "\<forall>a<d. \<forall>b<d. getitem m1 a b =
           (if (a, b) \<in> T \<or> (b, a) \<in> T then Some (pair_coeff w xd yd a b)
            else getitem (power_mat w) a b)"
    by blast
  define w1 where "w1 = w\<lparr>power_mat := m1\<rparr>"
  have b1: "build_power_matrix w = (if ok then Returns w1 else Raises IndexError w1)"
    using run1 by (simp add: build_power_matrix_def xd_def yd_def ps_def w1_def)
  then have st: "state_of (build_power_matrix w) = w1" by simp
  have sq1': "square_dim (power_mat w1) d" using sq1 by (simp add: w1_def)
  have upd: "w1\<lparr>power_mat := m\<rparr> = w\<lparr>power_mat := m\<rparr>" for m
    by (simp add: w1_def)
  have sel: "power_mat w1 = m1" by (simp add: w1_def)
  have pc: "pair_coeff w1 xd yd a b = pair_coeff w xd yd a b" for a b
    by (simp add: w1_def)
  from build_loop_prefix [OF sq1', of xd yd ps, folded ok_def T_def, unfolded upd sel pc]
  obtain m2 where
    run2: "build_loop xd yd ps w1 =
             (if ok then Returns (w\<lparr>power_mat := m2\<rparr>) else Raises IndexError (w\<lparr>power_mat := m2\<rparr>))" and
    sq2: "square_dim m2 d" and
    e2: "\<forall>a<d. \<forall>b<d. getitem m2 a b =
           (if (a, b) \<in> T \<or> (b, a) \<in> T then Some (pair_coeff w xd yd a b)
            else getitem m1 a b)"
    by blast
  have "m2 = m1"
  proof (rule ndarray_eqI [OF sq2 sq1])
    fix a b assume "a < d" "b < d"
    then show "getitem m2 a b = getitem m1 a b"
      using e1 e2 by simp
  qed
  with run2 have "build_loop xd yd ps w1 = (if ok then Returns w1 else Raises IndexError w1)"
    by (simp add: w1_def)
  then have b2: "build_power_matrix w1 = (if ok then Returns w1 else Raises IndexError w1)"
    by (simp add: build_power_matrix_def xd_def yd_def ps_def w1_def)
  have "ok" if "d = length (nodes w) + 1"
    using that by (auto simp: ok_def ps_def set_combinations2)
  with b1 b2 st show ?thesis by simp
qed

theorem build_power_matrix_idempotent_witness:
  "square_dim (power_mat one_node_net) 2
     \<and> build_power_matrix (state_of (build_power_matrix one_node_net))
         = build_power_matrix one_node_net
     \<and> returns (build_power_matrix one_node_net)"
  using build_power_matrix_idempotent [OF square_dim_one_node_net] square_dim_one_node_net
  by simp

text \<open>
  C8, evaluated where it fails: on the one-node network that the constructor returns,
  \<open>add_sensor\<close> raises; and when the caller goes on to remove the node that was
  appended (index 1), the node list is the old one and the matrix has lost its last
  row and column: its dimension is 1, not 2.
\<close>

theorem add_then_remove_example:
  "\<not> returns (add_sensor far_node one_node_net)
     \<and> remove_sensor 1 (state_of (add_sensor far_node one_node_net)) =
         Returns (example_net [origin_node] \<lparr>ncols = 1, rows = [[0]]\<rparr>)
     \<and> example_net [origin_node] \<lparr>ncols = 1, rows = [[0]]\<rparr> \<noteq> one_node_net"
  by (simp add: add_eval remove_eval)

text \<open>
  C9: when \<open>power_mat\<close> has \<open>len(nodes) + 1\<close> rows, \<open>add_sensor\<close> raises (the column it
  stacks has \<open>len(nodes)\<close> entries); the node has been appended by then and
  \<open>power_mat\<close> is as it was.
\<close>

theorem add_sensor_raises:
  assumes "nrows (power_mat w) = length (nodes w) + 1"
  shows "add_sensor node w = Raises ValueError (w\<lparr>nodes := nodes w @ [node]\<rparr>)"
proof -
  have "nrows (power_mat w) \<noteq> length (coefflist w node)"
    using assms by (simp add: coefflist_def)
  then have "column_stack (power_mat w) (coefflist w node) = Inl ValueError"
    by (rule column_stack_mismatch)
  then show ?thesis
    by (simp add: add_sensor_def Let_def)
qed

theorem add_sensor_raises_witness:
  "nrows (power_mat two_node_net) = length (nodes two_node_net) + 1
     \<and> add_sensor origin_node two_node_net =
         Raises ValueError (two_node_net\<lparr>nodes := [origin_node, far_node, origin_node]\<rparr>)"
proof -
  have h: "nrows (power_mat two_node_net) = length (nodes two_node_net) + 1"
    by (simp add: nrows_def)
  from add_sensor_raises [OF h, of origin_node] h show ?thesis by simp
qed

text \<open>
  C10, as the code has it: on a network of \<open>n \<ge> 1\<close> nodes whose matrix is square of
  dimension \<open>n + 1\<close>, and for \<open>-n \<le> idx \<le> -1\<close>, \<open>remove_sensor(idx)\<close> returns; it
  removes \<open>nodes[n + idx]\<close> and the row and column \<open>n + 1 + idx\<close> of the matrix, which is
  the slot of that node, so that the value invariant of the matrix, if it held before,
  holds after.
\<close>

theorem remove_sensor_negative_index:
  assumes "consistent_shape w" and "idx < 0" and "- int (length (nodes w)) \<le> idx"
  shows "\<exists>m'. remove_sensor idx w =
                Returns (w\<lparr>nodes := drop_nth (nat (int (length (nodes w)) + idx)) (nodes w),
                           power_mat := m'\<rparr>)
           \<and> square_dim m' (length (nodes w))
           \<and> (\<forall>a<length (nodes w). \<forall>b<length (nodes w).
                 getitem m' a b =
                 getitem (power_mat w) (skip (nat (int (length (nodes w)) + 1 + idx)) a)
                                       (skip (nat (int (length (nodes w)) + 1 + idx)) b))
           \<and> (value_inv w \<longrightarrow>
                 value_inv (w\<lparr>nodes := drop_nth (nat (int (length (nodes w)) + idx)) (nodes w),
                              power_mat := m'\<rparr>))"
proof -
  define n where "n = length (nodes w)"
  define k where "k = nat (int n + idx)"
  have kn: "norm_index (length (nodes w)) idx = Some k"
    using assms(2,3) by (simp add: norm_index_def k_def n_def add.commute)
  have km: "norm_index (n + 1) idx = Some (Suc k)"
    using assms(2,3) by (auto simp: norm_index_def k_def n_def)
  have k_lt: "k < n" using assms(2,3) by (simp add: k_def n_def)
  have Suc_k: "nat (int n + 1 + idx) = Suc k"
    using assms(2,3) by (simp add: k_def n_def)
  have sq: "square_dim (power_mat w) (n + 1)"
    using assms(1) by (simp add: consistent_shape_def n_def)
  from remove_sensor_gen [OF sq kn km] obtain m' where
    ret: "remove_sensor idx w = Returns (w\<lparr>nodes := drop_nth k (nodes w), power_mat := m'\<rparr>)" and
    sq': "square_dim m' n" and
    ent: "\<forall>a<n. \<forall>b<n. getitem m' a b = getitem (power_mat w) (skip (Suc k) a) (skip (Suc k) b)"
    by auto
  have len': "length (drop_nth k (nodes w)) + 1 = n"
    using k_lt by (simp add: length_drop_nth n_def)
  have inv: "value_inv (w\<lparr>nodes := drop_nth k (nodes w), power_mat := m'\<rparr>)" if vi: "value_inv w"
    unfolding value_inv_def
  proof (intro allI impI)
    fix i j
    assume "i < length (nodes (w\<lparr>nodes := drop_nth k (nodes w), power_mat := m'\<rparr>)) + 1"
      and "j < length (nodes (w\<lparr>nodes := drop_nth k (nodes w), power_mat := m'\<rparr>)) + 1"
      and ne: "i \<noteq> j"
    then have i: "i < n" and j: "j < n" using len' by simp_all
    have si: "skip (Suc k) i < n + 1" and sj: "skip (Suc k) j < n + 1"
      using i j by (auto simp: skip_def)
    have sne: "skip (Suc k) i \<noteq> skip (Suc k) j"
      using ne skip_inj by blast
    have "getitem (power_mat w) (skip (Suc k) i) (skip (Suc k) j)
            = Some (expected w (skip (Suc k) i) (skip (Suc k) j))"
      using vi si sj sne by (simp add: value_inv_def n_def)
    moreover have "expected (w\<lparr>nodes := drop_nth k (nodes w), power_mat := m'\<rparr>) i j
            = expected w (skip (Suc k) i) (skip (Suc k) j)"
      using k_lt i j by (intro expected_after_removal) (simp_all add: n_def)
    ultimately show "getitem (power_mat (w\<lparr>nodes := drop_nth k (nodes w), power_mat := m'\<rparr>)) i j
            = Some (expected (w\<lparr>nodes := drop_nth k (nodes w), power_mat := m'\<rparr>) i j)"
      using ent i j by simp
  qed
  note facts = ret sq' ent inv
  show ?thesis
    unfolding Suc_k [unfolded k_def n_def]
    using facts [unfolded k_def n_def] by blast
qed

theorem remove_sensor_negative_index_witness:
  "consistent_shape mixed_net \<and> (-2::int) < 0 \<and> - int (length (nodes mixed_net)) \<le> -2
     \<and> value_inv mixed_net
     \<and> remove_sensor (-2) mixed_net =
         Returns (example_net [axis_node] \<lparr>ncols = 2, rows = [[0, 9], [9, 0]]\<rparr>)
     \<and> value_inv (example_net [axis_node] \<lparr>ncols = 2, rows = [[0, 9], [9, 0]]\<rparr>)"
proof -
  have h: "consistent_shape mixed_net" "(-2::int) < 0"
    "- int (length (nodes mixed_net)) \<le> -2"
    by (simp_all add: consistent_shape_def square_dim_def nrows_def rect_def)
  have vi: "value_inv mixed_net"
  proof -
    from WSN_init_entries [of "[origin_node, axis_node]" 1 1 1 2 1 "(0, 0)" "(3, 4)" 10 1]
    show ?thesis
      unfolding mixed_net_constructed by (simp add: value_inv_def)
  qed
  from remove_sensor_negative_index [OF h] obtain m' where
    ret: "remove_sensor (-2) mixed_net =
            Returns (mixed_net\<lparr>nodes := drop_nth (nat (int (length (nodes mixed_net)) + -2))
                                         (nodes mixed_net), power_mat := m'\<rparr>)" and
    inv: "value_inv mixed_net \<longrightarrow>
            value_inv (mixed_net\<lparr>nodes := drop_nth (nat (int (length (nodes mixed_net)) + -2))
                                         (nodes mixed_net), power_mat := m'\<rparr>)"
    by blast
  have ev: "remove_sensor (-2) mixed_net =
      Returns (example_net [axis_node] \<lparr>ncols = 2, rows = [[0, 9], [9, 0]]\<rparr>)"
    by (simp add: remove_eval)
  from ret ev have "mixed_net\<lparr>nodes := drop_nth (nat (int (length (nodes mixed_net)) + -2))
                                         (nodes mixed_net), power_mat := m'\<rparr>
      = example_net [axis_node] \<lparr>ncols = 2, rows = [[0, 9], [9, 0]]\<rparr>"
    by (simp only: outcome.inject)
  with inv vi have "value_inv (example_net [axis_node] \<lparr>ncols = 2, rows = [[0, 9], [9, 0]]\<rparr>)"
    by (simp only:)
  with h vi ev show ?thesis by (simp only: simp_thms)
qed

text \<open>
  C10 as stated, for every network, fails where the matrix has dimension \<open>n\<close>: the
  state that a raising \<open>add_sensor\<close> leaves behind. After \<open>add_sensor\<close> has raised on
  the network of the origin and the node at \<open>(3, 0)\<close>, there are \<open>n = 3\<close> nodes and the
  matrix still has dimension 3. There \<open>remove_sensor(-3)\<close> returns and removes \<open>nodes[0]\<close>
  together with row and column 0 of the matrix, the base station's: the entry \<open>[0][1]\<close>
  is then 7, the old \<open>[1][2]\<close>. Had the row and column at \<open>n + 1 + idx = 1\<close> been
  removed, it would be the old \<open>[0][2]\<close>, which is 9.
\<close>

theorem remove_sensor_negative_index_counterexample:
  "reachable (state_of (add_sensor far_node mixed_net))
     \<and> state_of (add_sensor far_node mixed_net) =
         example_net [origin_node, axis_node, far_node]
           \<lparr>ncols = 3, rows = [[0, 11, 9], [11, 0, 7], [9, 7, 0]]\<rparr>
     \<and> \<not> consistent_shape (state_of (add_sensor far_node mixed_net))
     \<and> - int (length (nodes (state_of (add_sensor far_node mixed_net)))) \<le> (-3::int)
     \<and> (-3::int) \<le> -1
     \<and> remove_sensor (-3) (state_of (add_sensor far_node mixed_net)) =
         Returns (example_net [axis_node, far_node] \<lparr>ncols = 2, rows = [[0, 7], [7, 0]]\<rparr>)
     \<and> getitem \<lparr>ncols = 2, rows = [[0, 7], [7, 0]]\<rparr> 0 1 = Some 7
     \<and> getitem (power_mat (state_of (add_sensor far_node mixed_net)))
           (skip (nat (3 + 1 + (-3))) 0) (skip (nat (3 + 1 + (-3))) 1) = Some 9
     \<and> getitem (power_mat (state_of (add_sensor far_node mixed_net)))
           (skip (nat (3 + (-3))) 0) (skip (nat (3 + (-3))) 1) = Some 7"
proof -
  have "reachable mixed_net"
    using mixed_net_constructed by (rule reachable.constructed)
  then have re: "reachable (state_of (add_sensor far_node mixed_net))"
    by (rule reachable.added)
  have st: "state_of (add_sensor far_node mixed_net) =
      example_net [origin_node, axis_node, far_node]
        \<lparr>ncols = 3, rows = [[0, 11, 9], [11, 0, 7], [9, 7, 0]]\<rparr>"
    by (simp add: add_eval)
  have sh: "\<not> consistent_shape (example_net [origin_node, axis_node, far_node]
        \<lparr>ncols = 3, rows = [[0, 11, 9], [11, 0, 7], [9, 7, 0]]\<rparr>)"
    by (simp add: consistent_shape_def square_dim_def nrows_def)
  have rm: "remove_sensor (-3) (example_net [origin_node, axis_node, far_node]
        \<lparr>ncols = 3, rows = [[0, 11, 9], [11, 0, 7], [9, 7, 0]]\<rparr>) =
      Returns (example_net [axis_node, far_node] \<lparr>ncols = 2, rows = [[0, 7], [7, 0]]\<rparr>)"
    by (simp add: remove_eval)
  have g: "getitem \<lparr>ncols = 2, rows = [[0, 7], [7, 0]]\<rparr> 0 1 = Some 7"
    "getitem \<lparr>ncols = 3, rows = [[0, 11, 9], [11, 0, 7], [9, 7, 0]]\<rparr>
       (skip (nat (3 + 1 + (-3))) 0) (skip (nat (3 + 1 + (-3))) 1) = Some 9"
    "getitem \<lparr>ncols = 3, rows = [[0, 11, 9], [11, 0, 7], [9, 7, 0]]\<rparr>
       (skip (nat (3 + (-3))) 0) (skip (nat (3 + (-3))) 1) = Some 7"
    by (simp_all add: getitem_def nrows_def skip_def)
  show ?thesis
    unfolding st using re [unfolded st] sh rm g by simp
qed

end
